theory Spec2Isabelle
  imports Complex_Main "HOL-Library.Sublist"
begin

section \<open>The size table (App.tsx, lines 3-14)\<close>

text \<open>
  \<open>type Size = 'XS' | 'S' | 'M' | 'L' | 'XL' | 'XXL'\<close> is a union of six string
  literals. The model keeps it as a datatype together with \<open>sizeName\<close>, the string each
  member is at run time. A \<open>Record<Size, 'a>\<close> is a total function on \<open>Size\<close>; both
  object literals of the source list their keys in the order of \<open>Size_keys\<close>, which is
  the order \<open>Object.keys\<close> and \<open>Object.entries\<close> enumerate them in.
\<close>

datatype Size = XS | S | M | L | XL | XXL

fun sizeName :: "Size \<Rightarrow> string" where
  "sizeName XS = ''XS''"
| "sizeName S = ''S''"
| "sizeName M = ''M''"
| "sizeName L = ''L''"
| "sizeName XL = ''XL''"
| "sizeName XXL = ''XXL''"

definition Size_keys :: "Size list" where
  "Size_keys = [XS, S, M, L, XL, XXL]"

definition Object_keys :: "(Size \<Rightarrow> 'a) \<Rightarrow> string list" where
  "Object_keys r = map sizeName Size_keys"

definition Object_entries :: "(Size \<Rightarrow> 'a) \<Rightarrow> (Size \<times> 'a) list" where
  "Object_entries r = map (\<lambda>k. (k, r k)) Size_keys"

text \<open>
  JavaScript numbers are modelled as reals, which leaves out NaN and the infinities. The
  only number of the program that is not an integer is \<open>3 / 5\<close>; comparing a finite
  double with the double nearest to \<open>3 / 5\<close> gives what comparing it with the real
  \<open>3 / 5\<close> gives, since no double lies between the two. Sums and products are taken
  in the reals, where the source rounds the product of a count and \<open>3 / 5\<close> to a double.
\<close>

fun sizingToWeeks :: "Size \<Rightarrow> real" where
  "sizingToWeeks XS = 3 / 5"
| "sizingToWeeks S = 1"
| "sizingToWeeks M = 3"
| "sizingToWeeks L = 6"
| "sizingToWeeks XL = 14"
| "sizingToWeeks XXL = 16"

text \<open>
  \<open>x as Size\<close> is an unchecked cast of a string that is then used as a property name.
  \<open>asSize\<close> finds the member of the record the string names, if any.
\<close>

definition asSize :: "string \<Rightarrow> Size option" where
  "asSize s = find (\<lambda>k. sizeName k = s) Size_keys"

section \<open>String and array primitives used by the program\<close>

text \<open>
  Strings are lists of 8-bit characters, so the model covers the input texts whose code
  units are below 256. \<open>String.prototype.replaceAll\<close> with a string pattern replaces the
  non-overlapping occurrences of the pattern found in one scan from the left; the scan
  goes on behind each replaced occurrence and never looks at its own output again. The
  replacement is inserted as it is: the two replacements of the source hold no \<open>$\<close>.
\<close>

fun replaceAll :: "string \<Rightarrow> string \<Rightarrow> string \<Rightarrow> string" where
  "replaceAll [] rep s = rep @ concat (map (\<lambda>c. c # rep) s)"
| "replaceAll (p # ps) rep [] = []"
| "replaceAll (p # ps) rep (c # cs) =
     (if prefix (p # ps) (c # cs)
      then rep @ replaceAll (p # ps) rep (drop (length ps) cs)
      else c # replaceAll (p # ps) rep cs)"

text \<open>
  \<open>String.prototype.trim\<close> removes white space and line terminators from both ends. Of
  these, the code units below 256 are TAB, LF, VT, FF, CR, SP and NBSP.
\<close>

definition isWhiteSpace :: "char \<Rightarrow> bool" where
  "isWhiteSpace c = (of_char c \<in> {9, 10, 11, 12, 13, 32, 160 :: nat})"

definition trim :: "string \<Rightarrow> string" where
  "trim s = rev (dropWhile isWhiteSpace (rev (dropWhile isWhiteSpace s)))"

text \<open>
  \<open>String.prototype.split\<close> for a separator of one character, the only way the source
  calls it: the pieces between the separators, empty pieces included; the empty string
  gives one empty piece.
\<close>

fun split :: "char \<Rightarrow> string \<Rightarrow> string list" where
  "split sep [] = [[]]"
| "split sep (c # cs) =
     (let r = split sep cs in if c = sep then [] # r else (c # hd r) # tl r)"

definition includes_list :: "'a list \<Rightarrow> 'a \<Rightarrow> bool" where
  "includes_list xs x = (x \<in> set xs)"

definition every :: "'a list \<Rightarrow> ('a \<Rightarrow> bool) \<Rightarrow> bool" where
  "every xs p = list_all p xs"

section \<open>getSizingFromNumberOfWeeks (App.tsx, lines 53-63)\<close>

definition getSizingFromNumberOfWeeks :: "real \<Rightarrow> Size" where
  "getSizingFromNumberOfWeeks numberOfWeeks =
     fold (\<lambda>(sz, week) actualSize. if numberOfWeeks \<le> week then sz else actualSize)
       (rev (Object_entries sizingToWeeks)) XXL"

section \<open>computeSizing (App.tsx, lines 16-51)\<close>

record count =
  min_cnt :: nat
  max_cnt :: nat

datatype exn = TypeError

definition sizeCount_init :: "Size \<Rightarrow> count" where
  "sizeCount_init = (\<lambda>k. \<lparr>min_cnt = 0, max_cnt = 0\<rparr>)"

definition incMin :: "Size \<Rightarrow> (Size \<Rightarrow> count) \<Rightarrow> (Size \<Rightarrow> count)" where
  "incMin k sc = sc(k := (sc k)\<lparr>min_cnt := min_cnt (sc k) + 1\<rparr>)"

definition incMax :: "Size \<Rightarrow> (Size \<Rightarrow> count) \<Rightarrow> (Size \<Rightarrow> count)" where
  "incMax k sc = sc(k := (sc k)\<lparr>max_cnt := max_cnt (sc k) + 1\<rparr>)"

text \<open>
  The first loop (lines 26-35). \<open>sizeCount[x]\<close> reads the property named by the string
  \<open>x\<close>. There are three outcomes:
  \<^item> \<open>x\<close> names one of the six members: the read gives that member's counters;
  \<^item> \<open>x\<close> names a property every object inherits from \<open>Object.prototype\<close>: the read
    gives a function, or for \<open>__proto__\<close> the prototype itself;
  \<^item> otherwise the read gives \<open>undefined\<close>. An index past the end of the array
    \<open>minMaxSize\<close> reads \<open>undefined\<close> as well.
\<close>

datatype property = Own Size | Inherited | Undefined

definition Object_prototype_names :: "string list" where
  "Object_prototype_names =
     [''constructor'', ''hasOwnProperty'', ''isPrototypeOf'', ''propertyIsEnumerable'',
      ''toLocaleString'', ''toString'', ''valueOf'', ''__proto__'', ''__defineGetter__'',
      ''__defineSetter__'', ''__lookupGetter__'', ''__lookupSetter__'']"

definition getProp :: "string \<Rightarrow> property" where
  "getProp x =
     (case asSize x of
        Some k \<Rightarrow> Own k
      | None \<Rightarrow> if includes_list Object_prototype_names x then Inherited else Undefined)"

text \<open>
  \<open>sizeCount[x].min += 1\<close> and \<open>sizeCount[x].max += 1\<close>. On a member, the counter goes up
  by one. On an inherited object the statement reads its missing field, adds one and
  stores the result on that object: nothing is thrown and the six members keep their
  counters (the write to the inherited object is outside the state of the model; it
  changes no later read of a member). On \<open>undefined\<close> the access to the field throws a
  TypeError, which ends \<open>computeSizing\<close>.
\<close>

fun addMin :: "property \<Rightarrow> (Size \<Rightarrow> count) \<Rightarrow> exn + (Size \<Rightarrow> count)" where
  "addMin (Own k) sizeCount = Inr (incMin k sizeCount)"
| "addMin Inherited sizeCount = Inr sizeCount"
| "addMin Undefined sizeCount = Inl TypeError"

fun addMax :: "property \<Rightarrow> (Size \<Rightarrow> count) \<Rightarrow> exn + (Size \<Rightarrow> count)" where
  "addMax (Own k) sizeCount = Inr (incMax k sizeCount)"
| "addMax Inherited sizeCount = Inr sizeCount"
| "addMax Undefined sizeCount = Inl TypeError"

text \<open>One round of the loop: the two statements of the branch taken, in their order.\<close>

definition countSize :: "string \<Rightarrow> (Size \<Rightarrow> count) \<Rightarrow> exn + (Size \<Rightarrow> count)" where
  "countSize sz sizeCount =
     (if includes_list sz CHR ''/''
      then (case split CHR ''/'' sz of
              m0 # m1 # _ \<Rightarrow>
                (case addMin (getProp m0) sizeCount of
                   Inl e \<Rightarrow> Inl e
                 | Inr sizeCount1 \<Rightarrow> addMax (getProp m1) sizeCount1)
            | [m0] \<Rightarrow>
                (case addMin (getProp m0) sizeCount of
                   Inl e \<Rightarrow> Inl e
                 | Inr sizeCount1 \<Rightarrow> Inl TypeError)
            | [] \<Rightarrow> Inl TypeError)
      else (case addMin (getProp sz) sizeCount of
              Inl e \<Rightarrow> Inl e
            | Inr sizeCount1 \<Rightarrow> addMax (getProp sz) sizeCount1))"

fun computeSizing_count :: "string list \<Rightarrow> (Size \<Rightarrow> count) \<Rightarrow> exn + (Size \<Rightarrow> count)" where
  "computeSizing_count [] sizeCount = Inr sizeCount"
| "computeSizing_count (sz # sizes) sizeCount =
     (case countSize sz sizeCount of
        Inl e \<Rightarrow> Inl e
      | Inr sizeCount1 \<Rightarrow> computeSizing_count sizes sizeCount1)"

text \<open>The second loop (lines 37-45): the pair \<open>(numberOfWeeksMin, numberOfWeeksMax)\<close>.\<close>

definition computeSizing_weeks :: "(Size \<Rightarrow> count) \<Rightarrow> real \<times> real" where
  "computeSizing_weeks sizeCount =
     fold (\<lambda>(sz, c) (numberOfWeeksMin, numberOfWeeksMax).
             let ratio = sizingToWeeks sz
             in (numberOfWeeksMin + real (min_cnt c) * ratio,
                 numberOfWeeksMax + real (max_cnt c) * ratio))
       (Object_entries sizeCount) (0, 0)"

record computed =
  sizeMin :: Size
  sizeMax :: Size

definition computeSizing :: "string list \<Rightarrow> exn + computed" where
  "computeSizing sizes =
     (case computeSizing_count sizes sizeCount_init of
        Inl e \<Rightarrow> Inl e
      | Inr sizeCount \<Rightarrow>
          (case computeSizing_weeks sizeCount of
             (numberOfWeeksMin, numberOfWeeksMax) \<Rightarrow>
               Inr \<lparr>sizeMin = getSizingFromNumberOfWeeks numberOfWeeksMin,
                    sizeMax = getSizingFromNumberOfWeeks numberOfWeeksMax\<rparr>))"

section \<open>handleSetSignal (App.tsx, lines 65-91)\<close>

text \<open>The four signals of the component; each starts as the empty string.\<close>

record app =
  size_signal :: string
  error_signal :: string
  minComputedSize :: string
  maxComputedSize :: string

definition app_init :: app where
  "app_init = \<lparr>size_signal = [], error_signal = [], minComputedSize = [], maxComputedSize = []\<rparr>"

text \<open>
  Line 74, \<open>value.replaceAll(',', ' ').replaceAll('  ', ' ').trim().split(' ')\<close>, in two
  steps: the text after the two replacements, and the candidate tokens.
\<close>

definition handleSetSignal_spaced :: "string \<Rightarrow> string" where
  "handleSetSignal_spaced v = replaceAll ''  '' '' '' (replaceAll '','' '' '' v)"

definition handleSetSignal_sizes :: "string \<Rightarrow> string list" where
  "handleSetSignal_sizes v = split CHR '' '' (trim (handleSetSignal_spaced v))"

text \<open>Lines 78-80: the check applied to each candidate token.\<close>

definition validSize :: "string \<Rightarrow> bool" where
  "validSize sz =
     (includes_list (Object_keys sizingToWeeks) sz \<or>
      every (split CHR ''/'' sz) (\<lambda>s. includes_list (Object_keys sizingToWeeks) s))"

text \<open>
  The handler returns the signals as it leaves them, and the exception if one escapes
  (the signals set before the throw stay set).
\<close>

definition handleSetSignal :: "string \<Rightarrow> app \<Rightarrow> exn option \<times> app" where
  "handleSetSignal v st =
     (let st1 = st\<lparr>size_signal := v\<rparr>;
          sizes = handleSetSignal_sizes v
      in if every sizes validSize
         then (let st2 = st1\<lparr>error_signal := []\<rparr>
               in case computeSizing sizes of
                    Inl e \<Rightarrow> (Some e, st2)
                  | Inr computedSizes \<Rightarrow>
                      (None, st2\<lparr>minComputedSize := sizeName (sizeMin computedSizes),
                                 maxComputedSize := sizeName (sizeMax computedSizes)\<rparr>))
         else (None, st1\<lparr>error_signal := ''Invalid formatting''\<rparr>))"

section \<open>Notions used to state the properties\<close>

text \<open>The order of the labels: \<open>XS < S < M < L < XL < XXL\<close>.\<close>

fun rank :: "Size \<Rightarrow> nat" where
  "rank XS = 0"
| "rank S = 1"
| "rank M = 2"
| "rank L = 3"
| "rank XL = 4"
| "rank XXL = 5"

text \<open>
  The separators of the input format, and runs of them: \<open>run2 P s\<close> holds when two
  neighbours in \<open>s\<close> satisfy \<open>P\<close>, \<open>run3 P s\<close> when three in a row do.
\<close>

definition isSeparator :: "char \<Rightarrow> bool" where
  "isSeparator c = (c = CHR '','' \<or> c = CHR '' '')"

fun run2 :: "('a \<Rightarrow> bool) \<Rightarrow> 'a list \<Rightarrow> bool" where
  "run2 P (a # b # cs) = (P a \<and> P b \<or> run2 P (b # cs))"
| "run2 P cs = False"

fun run3 :: "('a \<Rightarrow> bool) \<Rightarrow> 'a list \<Rightarrow> bool" where
  "run3 P (a # b # c # cs) = (P a \<and> P b \<and> P c \<or> run3 P (b # c # cs))"
| "run3 P cs = False"

text \<open>
  The tokens of the input format: a label, or two labels around a \<open>/\<close>; the text of such
  a token, and the label it names for the min side and for the max side.
\<close>

datatype token = Single Size | Pair Size Size

fun tokenText :: "token \<Rightarrow> string" where
  "tokenText (Single l) = sizeName l"
| "tokenText (Pair a b) = sizeName a @ ''/'' @ sizeName b"

fun minLabel :: "token \<Rightarrow> Size" where
  "minLabel (Single l) = l"
| "minLabel (Pair a b) = a"

fun maxLabel :: "token \<Rightarrow> Size" where
  "maxLabel (Single l) = l"
| "maxLabel (Pair a b) = b"

text \<open>
  For any string: the piece before the first \<open>/\<close>, and the piece after it up to the next
  \<open>/\<close> (the whole string when it has no \<open>/\<close>).
\<close>

definition minPiece :: "string \<Rightarrow> string" where
  "minPiece sz = hd (split CHR ''/'' sz)"

definition maxPiece :: "string \<Rightarrow> string" where
  "maxPiece sz = (case split CHR ''/'' sz of m0 # m1 # ms \<Rightarrow> m1 | _ \<Rightarrow> sz)"

text \<open>The counters of all labels added up, on the min side and on the max side.\<close>

definition sumMin :: "(Size \<Rightarrow> count) \<Rightarrow> nat" where
  "sumMin sc = sum_list (map (\<lambda>k. min_cnt (sc k)) Size_keys)"

definition sumMax :: "(Size \<Rightarrow> count) \<Rightarrow> nat" where
  "sumMax sc = sum_list (map (\<lambda>k. max_cnt (sc k)) Size_keys)"

section \<open>Facts about the primitives\<close>

lemma split_nonempty: "split sep s \<noteq> []"
  by (induction s) (simp_all add: Let_def)

lemma split_no_sep: "sep \<notin> set s \<Longrightarrow> split sep s = [s]"
  by (induction s) (auto simp: Let_def)

lemma split_append_sep: "sep \<notin> set xs \<Longrightarrow> split sep (xs @ sep # ys) = xs # split sep ys"
  by (induction xs) (auto simp: Let_def)

lemma split_with_sep: "sep \<in> set s \<Longrightarrow> \<exists>m0 m1 ms. split sep s = m0 # m1 # ms"
proof (induction s)
  case Nil
  then show ?case by simp
next
  case (Cons c cs)
  obtain r rs where r: "split sep cs = r # rs"
    using split_nonempty [of sep cs] by (cases "split sep cs") auto
  show ?case
  proof (cases "c = sep")
    case True
    then show ?thesis by (simp add: r)
  next
    case False
    with Cons obtain m0 m1 ms where "split sep cs = m0 # m1 # ms" by auto
    with False show ?thesis by simp
  qed
qed

lemma asSize_name: "asSize (sizeName k) = Some k"
  by (cases k) (simp_all add: asSize_def Size_keys_def)

lemma asSize_key:
  "includes_list (Object_keys r) s \<Longrightarrow> \<exists>k. asSize s = Some k \<and> sizeName k = s"
  by (auto simp: includes_list_def Object_keys_def asSize_name)

lemma getProp_name: "getProp (sizeName k) = Own k"
  by (simp add: getProp_def asSize_name)

lemma getProp_key:
  "includes_list (Object_keys r) s \<Longrightarrow> \<exists>k. getProp s = Own k \<and> sizeName k = s"
  using asSize_key [of r s] by (auto simp: getProp_def)

lemma sizeName_inj: "(sizeName a = sizeName b) = (a = b)"
  by (cases a; cases b) simp_all

lemma slash_not_in_name: "CHR ''/'' \<notin> set (sizeName k)"
  by (cases k) simp_all


subsection \<open>replaceAll\<close>

lemma replaceAll_char:
  "replaceAll [p] [r] s = map (\<lambda>c. if c = p then r else c) s"
  by (induction s) auto

lemma collapse_pair:
  "replaceAll ''  '' '' '' (CHR '' '' # CHR '' '' # cs) = CHR '' '' # replaceAll ''  '' '' '' cs"
  by simp

lemma collapse_other:
  "\<not> (c = CHR '' '' \<and> cs \<noteq> [] \<and> hd cs = CHR '' '') \<Longrightarrow>
     replaceAll ''  '' '' '' (c # cs) = c # replaceAll ''  '' '' '' cs"
  by (cases cs) auto

lemma run2_Cons: "run2 P (a # s) = ((s \<noteq> [] \<and> P a \<and> P (hd s)) \<or> run2 P s)"
  by (cases s) auto

lemma run3_Cons: "run3 P s \<Longrightarrow> run3 P (a # s)"
  by (induction P s rule: run3.induct) auto

lemma collapse_Nil: "replaceAll ''  '' '' '' [] = []"
  by simp

lemma run3_map: "run3 P (map f s) = run3 (\<lambda>c. P (f c)) s"
  by (induction "\<lambda>c. P (f c)" s rule: run3.induct) auto

lemma run2_cong: "(\<And>c. c \<in> set s \<Longrightarrow> P c = Q c) \<Longrightarrow> run2 P s = run2 Q s"
  by (induction P s rule: run2.induct) auto

lemma collapse_hd:
  "s \<noteq> [] \<Longrightarrow> replaceAll ''  '' '' '' s \<noteq> [] \<and> hd (replaceAll ''  '' '' '' s) = hd s"
  by (cases s) auto

lemma collapse_no_run2:
  "\<not> run3 (\<lambda>c. c = CHR '' '') s \<Longrightarrow> \<not> run2 (\<lambda>c. c = CHR '' '') (replaceAll ''  '' '' '' s)"
proof (induction s rule: length_induct)
  case (1 s)
  show ?case
  proof (cases s)
    case Nil
    then show ?thesis by simp
  next
    case (Cons c cs)
    show ?thesis
    proof (cases "c = CHR '' '' \<and> cs \<noteq> [] \<and> hd cs = CHR '' ''")
      case True
      then obtain ds where cs: "cs = CHR '' '' # ds" by (cases cs) auto
      show ?thesis
      proof (cases ds)
        case Nil
        then show ?thesis using True by (simp add: Cons cs)
      next
        case (Cons e es)
        have e: "e \<noteq> CHR '' ''" using 1(2) \<open>s = c # cs\<close> cs True Cons by auto
        have "\<not> run3 (\<lambda>c. c = CHR '' '') ds" using 1(2) \<open>s = c # cs\<close> cs run3_Cons by metis
        moreover have "length ds < length s" using \<open>s = c # cs\<close> cs by simp
        ultimately have ih: "\<not> run2 (\<lambda>c. c = CHR '' '') (replaceAll ''  '' '' '' ds)"
          using 1(1) by blast
        have "replaceAll ''  '' '' '' s = CHR '' '' # replaceAll ''  '' '' '' ds"
          using True by (simp add: \<open>s = c # cs\<close> cs)
        moreover have "hd (replaceAll ''  '' '' '' ds) = e" "replaceAll ''  '' '' '' ds \<noteq> []"
          using collapse_hd [of ds] Cons by simp_all
        ultimately show ?thesis using ih e by (simp add: run2_Cons)
      qed
    next
      case False
      have "\<not> run3 (\<lambda>c. c = CHR '' '') cs" using 1(2) Cons run3_Cons by metis
      moreover have "length cs < length s" using Cons by simp
      ultimately have ih: "\<not> run2 (\<lambda>c. c = CHR '' '') (replaceAll ''  '' '' '' cs)"
        using 1(1) by blast
      have "replaceAll ''  '' '' '' s = c # replaceAll ''  '' '' '' cs"
        unfolding Cons by (rule collapse_other [OF False])
      moreover have "cs \<noteq> [] \<Longrightarrow> hd (replaceAll ''  '' '' '' cs) = hd cs"
        using collapse_hd [of cs] by simp
      moreover have "cs = [] \<Longrightarrow> replaceAll ''  '' '' '' cs = []" by simp
      ultimately show ?thesis using ih False by (cases "cs = []") (simp_all add: run2_Cons)
    qed
  qed
qed

lemma collapse_append:
  "xs = [] \<or> last xs \<noteq> CHR '' '' \<Longrightarrow>
     replaceAll ''  '' '' '' (xs @ ys) = replaceAll ''  '' '' '' xs @ replaceAll ''  '' '' '' ys"
proof (induction xs rule: length_induct)
  case (1 xs)
  show ?case
  proof (cases xs)
    case Nil
    then show ?thesis by simp
  next
    case (Cons c cs)
    show ?thesis
    proof (cases "c = CHR '' '' \<and> cs \<noteq> [] \<and> hd cs = CHR '' ''")
      case True
      then obtain ds where cs: "cs = CHR '' '' # ds" by (cases cs) auto
      have b: "ds = [] \<or> last ds \<noteq> CHR '' ''" using 1(2) Cons cs by auto
      have len: "length ds < length xs" using Cons cs by simp
      have "replaceAll ''  '' '' '' (ds @ ys) = replaceAll ''  '' '' '' ds @ replaceAll ''  '' '' '' ys"
        by (rule 1(1) [rule_format, OF len b])
      then show ?thesis using True by (simp add: Cons cs)
    next
      case False
      have b: "cs = [] \<or> last cs \<noteq> CHR '' ''" using 1(2) Cons by auto
      have len: "length cs < length xs" using Cons by simp
      have ih: "replaceAll ''  '' '' '' (cs @ ys) = replaceAll ''  '' '' '' cs @ replaceAll ''  '' '' '' ys"
        by (rule 1(1) [rule_format, OF len b])
      have "\<not> (c = CHR '' '' \<and> cs @ ys \<noteq> [] \<and> hd (cs @ ys) = CHR '' '')"
        using False 1(2) Cons by (cases "cs = []") auto
      then have "replaceAll ''  '' '' '' (c # (cs @ ys)) = c # replaceAll ''  '' '' '' (cs @ ys)"
        by (rule collapse_other)
      then show ?thesis using ih collapse_other [OF False] by (simp add: Cons)
    qed
  qed
qed

subsection \<open>trim and split\<close>

lemma run2_appendI1: "run2 P ys \<Longrightarrow> run2 P (xs @ ys)"
  by (induction xs) (auto simp: run2_Cons)

lemma run2_appendI2: "run2 P xs \<Longrightarrow> run2 P (xs @ ys)"
  by (induction P xs rule: run2.induct) auto

lemma trim_decomp: "\<exists>pre post. s = pre @ trim s @ post"
proof -
  define d where "d = dropWhile isWhiteSpace s"
  have "rev (takeWhile isWhiteSpace (rev d) @ dropWhile isWhiteSpace (rev d)) = rev (rev d)"
    by (simp only: takeWhile_dropWhile_id)
  then have "rev (dropWhile isWhiteSpace (rev d)) @ rev (takeWhile isWhiteSpace (rev d)) = d"
    by (simp only: rev_append rev_rev_ident)
  then have "d = trim s @ rev (takeWhile isWhiteSpace (rev d))"
    by (simp only: trim_def d_def)
  moreover have "s = takeWhile isWhiteSpace s @ d" by (simp add: d_def)
  ultimately have "s = takeWhile isWhiteSpace s @ trim s @ rev (takeWhile isWhiteSpace (rev d))"
    by simp
  then show ?thesis by blast
qed

lemma trim_no_run2: "\<not> run2 P s \<Longrightarrow> \<not> run2 P (trim s)"
proof
  assume a: "\<not> run2 P s" and b: "run2 P (trim s)"
  obtain pre post where s: "s = pre @ trim s @ post" using trim_decomp by blast
  have "run2 P (pre @ trim s @ post)" using b by (intro run2_appendI1 run2_appendI2)
  with s a show False by simp
qed

lemma trim_ends:
  assumes "trim s \<noteq> []"
  shows "\<not> isWhiteSpace (hd (trim s)) \<and> \<not> isWhiteSpace (last (trim s))"
proof -
  define d where "d = dropWhile isWhiteSpace s"
  define e where "e = dropWhile isWhiteSpace (rev d)"
  have t: "trim s = rev e" by (simp add: trim_def d_def e_def)
  with assms have e: "e \<noteq> []" by simp
  then have d: "d \<noteq> []" by (auto simp: e_def)
  have 1: "\<not> isWhiteSpace (hd e)" using e unfolding e_def by (rule hd_dropWhile)
  have "last e = last (rev d)"
  proof -
    have "rev d = takeWhile isWhiteSpace (rev d) @ e" by (simp add: e_def)
    then have "last (rev d) = last (takeWhile isWhiteSpace (rev d) @ e)" by simp
    also have "\<dots> = last e" using e by simp
    finally show ?thesis by simp
  qed
  also have "\<dots> = hd d" using d by (simp add: last_rev)
  finally have "last e = hd d" .
  moreover have "\<not> isWhiteSpace (hd d)" using d unfolding d_def by (rule hd_dropWhile)
  ultimately have 2: "\<not> isWhiteSpace (last e)" by simp
  show ?thesis using 1 2 e by (simp add: t hd_rev last_rev)
qed

lemma split_hd_Nil: "(hd (split sep s) = []) = (s = [] \<or> hd s = sep)"
  by (cases s) (auto simp: Let_def)

lemma split_tl_Nil:
  "[] \<in> set (tl (split sep s)) \<Longrightarrow> (s \<noteq> [] \<and> last s = sep) \<or> run2 (\<lambda>c. c = sep) s"
proof (induction s)
  case Nil
  then show ?case by simp
next
  case (Cons c cs)
  obtain r rs where r: "split sep cs = r # rs"
    using split_nonempty [of sep cs] by (cases "split sep cs") auto
  show ?case
  proof (cases "c = sep")
    case True
    with Cons.prems r have "r = [] \<or> [] \<in> set rs" by auto
    then show ?thesis
    proof
      assume "r = []"
      then have "cs = [] \<or> hd cs = sep" using split_hd_Nil [of sep cs] r by simp
      then show ?thesis using True by (auto simp: run2_Cons)
    next
      assume "[] \<in> set rs"
      then have "(cs \<noteq> [] \<and> last cs = sep) \<or> run2 (\<lambda>c. c = sep) cs"
        using Cons.IH r by simp
      then show ?thesis by (auto simp: run2_Cons)
    qed
  next
    case False
    with Cons.prems r have "[] \<in> set rs" by auto
    then have "(cs \<noteq> [] \<and> last cs = sep) \<or> run2 (\<lambda>c. c = sep) cs"
      using Cons.IH r by simp
    then show ?thesis by (auto simp: run2_Cons)
  qed
qed

lemma split_Nil_mem:
  assumes "[] \<in> set (split sep s)"
  shows "s = [] \<or> hd s = sep \<or> last s = sep \<or> run2 (\<lambda>c. c = sep) s"
proof -
  obtain r rs where r: "split sep s = r # rs"
    using split_nonempty [of sep s] by (cases "split sep s") auto
  with assms have "r = [] \<or> [] \<in> set rs" by auto
  then show ?thesis
    using split_hd_Nil [of sep s] split_tl_Nil [of sep s] r by auto
qed

lemma white_space: "isWhiteSpace CHR '' ''"
  by (simp add: isWhiteSpace_def)

lemma set_replaceAll: "set (replaceAll (p # ps) rep s) \<subseteq> set s \<union> set rep"
proof (induction "p # ps" rep s rule: replaceAll.induct)
  case (2 rep)
  then show ?case by simp
next
  case (3 rep c cs)
  have "set (drop (length ps) cs) \<subseteq> set cs" by (rule set_drop_subset)
  with 3 show ?case by (auto split: if_splits)
qed

lemma spaced_no_comma: "CHR '','' \<notin> set (handleSetSignal_spaced v)"
proof -
  have "set (handleSetSignal_spaced v) \<subseteq> set (replaceAll '','' '' '' v) \<union> {CHR '' ''}"
    unfolding handleSetSignal_spaced_def
    using set_replaceAll [of "CHR '' ''" "'' ''" "'' ''"] by simp
  then show ?thesis by (auto simp: replaceAll_char)
qed

lemma spaced_no_run2:
  assumes "\<not> run3 isSeparator v"
  shows "\<not> run2 (\<lambda>c. c = CHR '' '') (handleSetSignal_spaced v)"
proof -
  have "(\<lambda>c. (if c = CHR '','' then CHR '' '' else c) = CHR '' '') = isSeparator"
    by (auto simp: isSeparator_def fun_eq_iff)
  then have "\<not> run3 (\<lambda>c. c = CHR '' '') (replaceAll '','' '' '' v)"
    using assms by (simp add: replaceAll_char run3_map)
  then show ?thesis
    unfolding handleSetSignal_spaced_def by (rule collapse_no_run2)
qed


lemma trim_all_white: "\<forall>c\<in>set s. isWhiteSpace c \<Longrightarrow> trim s = []"
proof -
  assume "\<forall>c\<in>set s. isWhiteSpace c"
  then have d: "dropWhile isWhiteSpace s = []"
    using dropWhile_eq_Nil_conv [of isWhiteSpace s] by blast
  show ?thesis unfolding trim_def d by simp
qed


lemma not_valid_empty: "\<not> validSize []"
  by (simp add: validSize_def every_def includes_list_def Object_keys_def Size_keys_def)

section \<open>The threshold mapper\<close>

text \<open>The scan over the reversed table, unrolled: the last test that succeeds wins.\<close>

lemma getSizing_cases:
  "getSizingFromNumberOfWeeks t =
     (if t \<le> 3 / 5 then XS else if t \<le> 1 then S else if t \<le> 3 then M
      else if t \<le> 6 then L else if t \<le> 14 then XL else XXL)"
  by (simp add: getSizingFromNumberOfWeeks_def Object_entries_def Size_keys_def)

text \<open>
  Claim C3. For a total \<open>t \<ge> 0\<close>, \<open>getSizingFromNumberOfWeeks\<close> returns the smallest label
  whose weight is at least \<open>t\<close>: when some weight reaches \<open>t\<close> (that is, \<open>t \<le> 16\<close>) the
  weight of the result does, and every label whose weight reaches \<open>t\<close> is at or above the
  result in the label order. A total above 16 gives XXL, the total 0 gives XS, the
  total 3 gives M and the total 16.0001 gives XXL.
\<close>

theorem getSizing_smallest_label:
  "0 \<le> t \<Longrightarrow>
     (t \<le> 16 \<longrightarrow> t \<le> sizingToWeeks (getSizingFromNumberOfWeeks t)) \<and>
     (\<forall>l. t \<le> sizingToWeeks l \<longrightarrow> rank (getSizingFromNumberOfWeeks t) \<le> rank l) \<and>
     (16 < t \<longrightarrow> getSizingFromNumberOfWeeks t = XXL) \<and>
     getSizingFromNumberOfWeeks 0 = XS \<and>
     getSizingFromNumberOfWeeks 3 = M \<and>
     getSizingFromNumberOfWeeks (160001 / 10000) = XXL"
proof (intro conjI allI impI)
  fix l
  assume "t \<le> sizingToWeeks l"
  then show "rank (getSizingFromNumberOfWeeks t) \<le> rank l"
    by (cases l) (simp_all add: getSizing_cases)
qed (simp_all add: getSizing_cases)

theorem getSizing_smallest_label_witness:
  "(0::real) \<le> 5 \<and> (5::real) \<le> 16 \<and> getSizingFromNumberOfWeeks 5 = L \<and>
   (5::real) \<le> sizingToWeeks L \<and> (5::real) \<le> sizingToWeeks XL \<and>
   rank (getSizingFromNumberOfWeeks 5) \<le> rank XL"
  using getSizing_smallest_label [of 5] by (simp add: getSizing_cases)

text \<open>
  Claim C9. \<open>getSizingFromNumberOfWeeks\<close> is monotone: a larger total never gives a
  smaller label.
\<close>

theorem getSizing_monotone:
  "t1 \<le> t2 \<Longrightarrow>
     rank (getSizingFromNumberOfWeeks t1) \<le> rank (getSizingFromNumberOfWeeks t2)"
  by (simp add: getSizing_cases)

theorem getSizing_monotone_witness:
  "(2::real) \<le> 7 \<and> getSizingFromNumberOfWeeks 2 = M \<and> getSizingFromNumberOfWeeks 7 = XL \<and>
   rank (getSizingFromNumberOfWeeks 2) \<le> rank (getSizingFromNumberOfWeeks 7)"
  using getSizing_monotone [of 2 7] by (simp add: getSizing_cases)

text \<open>
  Claim C10. \<open>getSizingFromNumberOfWeeks\<close> gives a label for every real total, negative
  ones included: every total up to \<open>3 / 5\<close> gives XS, and the result is always one of
  the six keys of the table.
\<close>

theorem getSizing_total:
  "(t \<le> 3 / 5 \<longrightarrow> getSizingFromNumberOfWeeks t = XS) \<and>
   getSizingFromNumberOfWeeks t \<in> set Size_keys"
  by (cases "getSizingFromNumberOfWeeks t") (simp_all add: getSizing_cases Size_keys_def)

theorem getSizing_total_witness:
  "(- 4 :: real) \<le> 3 / 5 \<and> getSizingFromNumberOfWeeks (- 4) = XS \<and>
   getSizingFromNumberOfWeeks (- 4) \<in> set Size_keys"
  using getSizing_total [of "- 4"] by auto

section \<open>The aggregator\<close>

lemmas eval_defs = computeSizing_def computeSizing_weeks_def Object_entries_def Size_keys_def
  sizeCount_init_def incMin_def incMax_def includes_list_def asSize_def getProp_def
  countSize_def getSizing_cases

lemmas handler_defs = handleSetSignal_def handleSetSignal_sizes_def handleSetSignal_spaced_def
  trim_def isWhiteSpace_def
  every_def validSize_def Object_keys_def

lemma inc_pointwise:
  "incMax b (incMin a sc) =
     (\<lambda>k. \<lparr>min_cnt = min_cnt (sc k) + (if k = a then 1 else 0),
            max_cnt = max_cnt (sc k) + (if k = b then 1 else 0)\<rparr>)"
  by (auto simp: incMin_def incMax_def fun_eq_iff)

lemma count_single:
  "computeSizing_count (sizeName l # sizes) sc =
     computeSizing_count sizes (incMax l (incMin l sc))"
  by (simp add: countSize_def includes_list_def slash_not_in_name getProp_name)

lemma count_pair:
  "computeSizing_count ((sizeName a @ ''/'' @ sizeName b) # sizes) sc =
     computeSizing_count sizes (incMax b (incMin a sc))"
  by (simp add: countSize_def includes_list_def split_append_sep split_no_sep
      slash_not_in_name getProp_name)

lemma sum_inc:
  "sumMin (incMin a sc) = Suc (sumMin sc)" "sumMin (incMax a sc) = sumMin sc"
  "sumMax (incMax a sc) = Suc (sumMax sc)" "sumMax (incMin a sc) = sumMax sc"
  by (cases a; simp add: sumMin_def sumMax_def incMin_def incMax_def Size_keys_def)+

text \<open>
  A token that passed the check of \<open>handleSetSignal\<close> never makes the first loop throw:
  it moves one unit into a min counter and one into a max counter.
\<close>

lemma valid_countSize:
  assumes "validSize sz"
  shows "\<exists>a b. countSize sz sc = Inr (incMax b (incMin a sc)) \<and>
           sizeName a = minPiece sz \<and> sizeName b = maxPiece sz"
proof (cases "CHR ''/'' \<in> set sz")
  case True
  then obtain m0 m1 ms where sp: "split CHR ''/'' sz = m0 # m1 # ms"
    using split_with_sep by blast
  have "sz \<notin> set (Object_keys sizingToWeeks)"
    using True by (auto simp: Object_keys_def Size_keys_def)
  with assms sp have "includes_list (Object_keys sizingToWeeks) m0"
    and "includes_list (Object_keys sizingToWeeks) m1"
    by (simp_all add: validSize_def every_def includes_list_def)
  then obtain a b where "getProp m0 = Own a" "sizeName a = m0"
    and "getProp m1 = Own b" "sizeName b = m1"
    using getProp_key by blast
  with True sp have "countSize sz sc = Inr (incMax b (incMin a sc))"
    and "sizeName a = minPiece sz" and "sizeName b = maxPiece sz"
    by (simp_all add: countSize_def includes_list_def minPiece_def maxPiece_def)
  then show ?thesis by blast
next
  case False
  then have sp: "split CHR ''/'' sz = [sz]" by (rule split_no_sep)
  with assms have "includes_list (Object_keys sizingToWeeks) sz"
    by (auto simp: validSize_def every_def)
  then obtain a where "getProp sz = Own a" "sizeName a = sz" using getProp_key by blast
  with False sp have "countSize sz sc = Inr (incMax a (incMin a sc))"
    and "sizeName a = minPiece sz" and "sizeName a = maxPiece sz"
    by (simp_all add: countSize_def includes_list_def minPiece_def maxPiece_def)
  then show ?thesis by blast
qed

lemma valid_step:
  assumes "validSize sz"
  shows "\<exists>a b. computeSizing_count (sz # sizes) sc =
           computeSizing_count sizes (incMax b (incMin a sc))"
proof -
  obtain a b where "countSize sz sc = Inr (incMax b (incMin a sc))"
    using valid_countSize [OF assms, of sc] by blast
  then have "computeSizing_count (sz # sizes) sc =
      computeSizing_count sizes (incMax b (incMin a sc))" by simp
  then show ?thesis by blast
qed

text \<open>
  The counters after the loop, for a list of checked tokens: each counter has grown by
  the number of tokens whose piece on that side names its label.
\<close>

lemma computeSizing_count_closed:
  "every sizes validSize \<Longrightarrow>
     computeSizing_count sizes sc =
       Inr (\<lambda>k. \<lparr>min_cnt = min_cnt (sc k) + count_list (map minPiece sizes) (sizeName k),
                  max_cnt = max_cnt (sc k) + count_list (map maxPiece sizes) (sizeName k)\<rparr>)"
proof (induction sizes arbitrary: sc)
  case Nil
  then show ?case by (simp add: fun_eq_iff)
next
  case (Cons sz sizes)
  then have v: "validSize sz" and vs: "every sizes validSize"
    by (simp_all add: every_def)
  obtain a b where st: "countSize sz sc = Inr (incMax b (incMin a sc))"
    and a: "minPiece sz = sizeName a" and b: "maxPiece sz = sizeName b"
    using valid_countSize [OF v, of sc] by auto
  show ?case
    unfolding computeSizing_count.simps st sum.case Cons.IH [OF vs]
    by (auto simp: inc_pointwise fun_eq_iff a b sizeName_inj)
qed

lemma computeSizing_count_valid:
  "every sizes validSize \<Longrightarrow>
     \<exists>sc'. computeSizing_count sizes sc = Inr sc' \<and>
       sumMin sc' = sumMin sc + length sizes \<and> sumMax sc' = sumMax sc + length sizes"
proof (induction sizes arbitrary: sc)
  case Nil
  then show ?case by simp
next
  case (Cons sz sizes)
  then have v: "validSize sz" and vs: "every sizes validSize"
    by (simp_all add: every_def)
  obtain a b where st: "computeSizing_count (sz # sizes) sc =
      computeSizing_count sizes (incMax b (incMin a sc))"
    using valid_step [OF v] by blast
  from Cons.IH [OF vs, of "incMax b (incMin a sc)"] show ?case
    unfolding st by (auto simp: sum_inc)
qed


text \<open>No exception escapes the handler, whatever the input text.\<close>

lemma handleSetSignal_no_exn: "fst (handleSetSignal v st) = None"
proof (cases "every (handleSetSignal_sizes v) validSize")
  case True
  from computeSizing_count_valid [OF True, of sizeCount_init]
  obtain sc where "computeSizing_count (handleSetSignal_sizes v) sizeCount_init = Inr sc"
    by blast
  then show ?thesis
    by (simp add: handleSetSignal_def Let_def True computeSizing_def split: prod.splits)
next
  case False
  then show ?thesis by (simp add: handleSetSignal_def Let_def)
qed

text \<open>The same for a list of label and pair tokens, by the labels the tokens name.\<close>

lemma count_tokens_closed:
  "computeSizing_count (map tokenText ts) sc =
     Inr (\<lambda>k. \<lparr>min_cnt = min_cnt (sc k) + count_list (map minLabel ts) k,
                max_cnt = max_cnt (sc k) + count_list (map maxLabel ts) k\<rparr>)"
proof (induction ts arbitrary: sc)
  case Nil
  then show ?case by (simp add: fun_eq_iff)
next
  case (Cons t ts)
  show ?case
  proof (cases t)
    case (Single l)
    have "computeSizing_count (map tokenText (t # ts)) sc =
        computeSizing_count (map tokenText ts) (incMax l (incMin l sc))"
      using count_single [of l "map tokenText ts" sc] by (simp add: Single)
    then show ?thesis
      unfolding Cons.IH by (auto simp: inc_pointwise fun_eq_iff Single)
  next
    case (Pair a b)
    have "computeSizing_count (map tokenText (t # ts)) sc =
        computeSizing_count (map tokenText ts) (incMax b (incMin a sc))"
      using count_pair [of a b "map tokenText ts" sc] by (simp add: Pair)
    then show ?thesis
      unfolding Cons.IH by (auto simp: inc_pointwise fun_eq_iff Pair)
  qed
qed

text \<open>
  Claim C4. For every token list that passed the check, and any starting counters, the
  first loop ends with each min counter grown by the number of tokens whose first piece
  names its label, and each max counter grown by the number of tokens whose second
  piece (for a token without \<open>/\<close>, the token itself) names its label. For a list of label
  and pair tokens this reads: the min counter of a label grows by the number of label
  tokens of that label and of pair tokens with that label in first place, the max
  counter by the number of label tokens of that label and of pair tokens with that
  label in second place, whatever the weights of the two labels of a pair. One round of
  the loop on a label token \<open>l\<close> adds one to both counters of \<open>l\<close>, on a pair token \<open>a/b\<close>
  one to the min counter of \<open>a\<close> and one to the max counter of \<open>b\<close>, and changes no other
  counter. The input \<open>S/M\<close> is the one token \<open>S/M\<close>; it leaves min count 1 at S and max
  count 1 at M, the sums 1 and 3, and the results S and M.
\<close>

theorem aggregator_counts:
  "(every sizes validSize \<longrightarrow>
      computeSizing_count sizes sc =
        Inr (\<lambda>k. \<lparr>min_cnt = min_cnt (sc k) + count_list (map minPiece sizes) (sizeName k),
                   max_cnt = max_cnt (sc k) + count_list (map maxPiece sizes) (sizeName k)\<rparr>)) \<and>
   computeSizing_count (map tokenText ts) sc =
     Inr (\<lambda>k. \<lparr>min_cnt = min_cnt (sc k) + count_list (map minLabel ts) k,
                max_cnt = max_cnt (sc k) + count_list (map maxLabel ts) k\<rparr>) \<and>
   computeSizing_count (sizeName l # sizes) sc =
     computeSizing_count sizes
       (\<lambda>k. \<lparr>min_cnt = min_cnt (sc k) + (if k = l then 1 else 0),
              max_cnt = max_cnt (sc k) + (if k = l then 1 else 0)\<rparr>) \<and>
   computeSizing_count ((sizeName a @ ''/'' @ sizeName b) # sizes) sc =
     computeSizing_count sizes
       (\<lambda>k. \<lparr>min_cnt = min_cnt (sc k) + (if k = a then 1 else 0),
              max_cnt = max_cnt (sc k) + (if k = b then 1 else 0)\<rparr>) \<and>
   handleSetSignal_sizes ''S/M'' = [''S/M''] \<and>
   computeSizing_count [''S/M''] sizeCount_init =
     Inr (sizeCount_init
           (S := \<lparr>min_cnt = 1, max_cnt = 0\<rparr>, M := \<lparr>min_cnt = 0, max_cnt = 1\<rparr>)) \<and>
   computeSizing_weeks
     (sizeCount_init
       (S := \<lparr>min_cnt = 1, max_cnt = 0\<rparr>, M := \<lparr>min_cnt = 0, max_cnt = 1\<rparr>)) = (1, 3) \<and>
   computeSizing [''S/M''] = Inr \<lparr>sizeMin = S, sizeMax = M\<rparr>"
proof (intro conjI impI)
  assume "every sizes validSize"
  then show "computeSizing_count sizes sc =
        Inr (\<lambda>k. \<lparr>min_cnt = min_cnt (sc k) + count_list (map minPiece sizes) (sizeName k),
                   max_cnt = max_cnt (sc k) + count_list (map maxPiece sizes) (sizeName k)\<rparr>)"
    by (rule computeSizing_count_closed)
next
  show "computeSizing_count (map tokenText ts) sc =
     Inr (\<lambda>k. \<lparr>min_cnt = min_cnt (sc k) + count_list (map minLabel ts) k,
                max_cnt = max_cnt (sc k) + count_list (map maxLabel ts) k\<rparr>)"
    by (rule count_tokens_closed)
  show "handleSetSignal_sizes ''S/M'' = [''S/M'']"
    by (simp add: handleSetSignal_sizes_def handleSetSignal_spaced_def trim_def isWhiteSpace_def)
  show "computeSizing_count [''S/M''] sizeCount_init =
     Inr (sizeCount_init
           (S := \<lparr>min_cnt = 1, max_cnt = 0\<rparr>, M := \<lparr>min_cnt = 0, max_cnt = 1\<rparr>))"
    by (simp add: eval_defs)
  show "computeSizing [''S/M''] = Inr \<lparr>sizeMin = S, sizeMax = M\<rparr>"
    by (simp add: eval_defs)
  show "computeSizing_weeks
     (sizeCount_init
       (S := \<lparr>min_cnt = 1, max_cnt = 0\<rparr>, M := \<lparr>min_cnt = 0, max_cnt = 1\<rparr>)) = (1, 3)"
    by (simp add: eval_defs)
qed (simp_all only: count_single count_pair inc_pointwise)

theorem aggregator_counts_witness:
  "every [''S/M'', ''XS'', ''XL/XS'', ''S/M''] validSize \<and>
   map minPiece [''S/M'', ''XS'', ''XL/XS'', ''S/M''] = [''S'', ''XS'', ''XL'', ''S''] \<and>
   map maxPiece [''S/M'', ''XS'', ''XL/XS'', ''S/M''] = [''M'', ''XS'', ''XS'', ''M''] \<and>
   computeSizing_count [''S/M'', ''XS'', ''XL/XS'', ''S/M''] sizeCount_init =
     Inr (\<lambda>k. \<lparr>min_cnt = min_cnt (sizeCount_init k) +
                   count_list (map minPiece [''S/M'', ''XS'', ''XL/XS'', ''S/M'']) (sizeName k),
                max_cnt = max_cnt (sizeCount_init k) +
                   count_list (map maxPiece [''S/M'', ''XS'', ''XL/XS'', ''S/M'']) (sizeName k)\<rparr>) \<and>
   computeSizing_count [''S/M'', ''XS'', ''XL/XS'', ''S/M''] sizeCount_init =
     Inr (sizeCount_init
           (XS := \<lparr>min_cnt = 1, max_cnt = 2\<rparr>, S := \<lparr>min_cnt = 2, max_cnt = 0\<rparr>,
            M := \<lparr>min_cnt = 0, max_cnt = 2\<rparr>, XL := \<lparr>min_cnt = 1, max_cnt = 0\<rparr>))"
proof -
  have h: "every [''S/M'', ''XS'', ''XL/XS'', ''S/M''] validSize"
    by (simp add: every_def validSize_def includes_list_def Object_keys_def Size_keys_def)
  have p: "map minPiece [''S/M'', ''XS'', ''XL/XS'', ''S/M''] = [''S'', ''XS'', ''XL'', ''S'']"
    "map maxPiece [''S/M'', ''XS'', ''XL/XS'', ''S/M''] = [''M'', ''XS'', ''XS'', ''M'']"
    by (simp_all add: minPiece_def maxPiece_def)
  have c: "computeSizing_count [''S/M'', ''XS'', ''XL/XS'', ''S/M''] sizeCount_init =
     Inr (\<lambda>k. \<lparr>min_cnt = min_cnt (sizeCount_init k) +
                   count_list (map minPiece [''S/M'', ''XS'', ''XL/XS'', ''S/M'']) (sizeName k),
                max_cnt = max_cnt (sizeCount_init k) +
                   count_list (map maxPiece [''S/M'', ''XS'', ''XL/XS'', ''S/M'']) (sizeName k)\<rparr>)"
    by (rule aggregator_counts [THEN conjunct1, rule_format, OF h])
  have e: "(\<lambda>k. \<lparr>min_cnt = min_cnt (sizeCount_init k) +
                   count_list (map minPiece [''S/M'', ''XS'', ''XL/XS'', ''S/M'']) (sizeName k),
                max_cnt = max_cnt (sizeCount_init k) +
                   count_list (map maxPiece [''S/M'', ''XS'', ''XL/XS'', ''S/M'']) (sizeName k)\<rparr>) =
        sizeCount_init
           (XS := \<lparr>min_cnt = 1, max_cnt = 2\<rparr>, S := \<lparr>min_cnt = 2, max_cnt = 0\<rparr>,
            M := \<lparr>min_cnt = 0, max_cnt = 2\<rparr>, XL := \<lparr>min_cnt = 1, max_cnt = 0\<rparr>)"
  proof
    fix k
    show "\<lparr>min_cnt = min_cnt (sizeCount_init k) +
                   count_list (map minPiece [''S/M'', ''XS'', ''XL/XS'', ''S/M'']) (sizeName k),
                max_cnt = max_cnt (sizeCount_init k) +
                   count_list (map maxPiece [''S/M'', ''XS'', ''XL/XS'', ''S/M'']) (sizeName k)\<rparr> =
        (sizeCount_init
           (XS := \<lparr>min_cnt = 1, max_cnt = 2\<rparr>, S := \<lparr>min_cnt = 2, max_cnt = 0\<rparr>,
            M := \<lparr>min_cnt = 0, max_cnt = 2\<rparr>, XL := \<lparr>min_cnt = 1, max_cnt = 0\<rparr>)) k"
      unfolding p by (cases k) (simp_all add: sizeCount_init_def)
  qed
  from c have c': "computeSizing_count [''S/M'', ''XS'', ''XL/XS'', ''S/M''] sizeCount_init =
     Inr (sizeCount_init
           (XS := \<lparr>min_cnt = 1, max_cnt = 2\<rparr>, S := \<lparr>min_cnt = 2, max_cnt = 0\<rparr>,
            M := \<lparr>min_cnt = 0, max_cnt = 2\<rparr>, XL := \<lparr>min_cnt = 1, max_cnt = 0\<rparr>))"
    unfolding e .
  show ?thesis
    by (intro conjI h p c c')
qed

text \<open>
  Claim C6. For each of the six labels, the pipeline run on the one-token list of that
  label gives the label back as both results: the threshold mapper applied to the
  weight of a label returns the label. The same holds from the input text on.
\<close>

theorem single_label_round_trip:
  "computeSizing [sizeName l] = Inr \<lparr>sizeMin = l, sizeMax = l\<rparr> \<and>
   getSizingFromNumberOfWeeks (sizingToWeeks l) = l \<and>
   handleSetSignal (sizeName l) st =
     (None, st\<lparr>size_signal := sizeName l, error_signal := [],
                minComputedSize := sizeName l, maxComputedSize := sizeName l\<rparr>)"
  by (cases l) (simp_all add: eval_defs handler_defs)



text \<open>
  Claim C8. A pair token is passed through by position: the one-token list \<open>a/b\<close> gives
  \<open>a\<close> as the min result and \<open>b\<close> as the max result for all labels \<open>a\<close> and \<open>b\<close>. The
  input \<open>XL/XS\<close> is the one token \<open>XL/XS\<close>; it leaves min count 1 at XL and max count 1
  at XS, the sums 14 and \<open>3 / 5\<close>, and the results XL and XS, so the weight of the min
  result is above the weight of the max result.
\<close>

theorem pair_positional:
  "computeSizing [sizeName a @ ''/'' @ sizeName b] = Inr \<lparr>sizeMin = a, sizeMax = b\<rparr> \<and>
   handleSetSignal_sizes ''XL/XS'' = [''XL/XS''] \<and>
   computeSizing_count [''XL/XS''] sizeCount_init =
     Inr (sizeCount_init
           (XL := \<lparr>min_cnt = 1, max_cnt = 0\<rparr>, XS := \<lparr>min_cnt = 0, max_cnt = 1\<rparr>)) \<and>
   computeSizing_weeks
     (sizeCount_init
       (XL := \<lparr>min_cnt = 1, max_cnt = 0\<rparr>, XS := \<lparr>min_cnt = 0, max_cnt = 1\<rparr>)) = (14, 3 / 5) \<and>
   computeSizing [''XL/XS''] = Inr \<lparr>sizeMin = XL, sizeMax = XS\<rparr> \<and>
   sizingToWeeks XS < sizingToWeeks XL \<and>
   handleSetSignal ''XL/XS'' st =
     (None, st\<lparr>size_signal := ''XL/XS'', error_signal := [],
                minComputedSize := ''XL'', maxComputedSize := ''XS''\<rparr>)"
proof (intro conjI)
  show "computeSizing [sizeName a @ ''/'' @ sizeName b] = Inr \<lparr>sizeMin = a, sizeMax = b\<rparr>"
    by (cases a; cases b) (simp_all add: eval_defs)
  show sz: "handleSetSignal_sizes ''XL/XS'' = [''XL/XS'']"
    by (simp add: handleSetSignal_sizes_def handleSetSignal_spaced_def trim_def isWhiteSpace_def)
  show cs: "computeSizing [''XL/XS''] = Inr \<lparr>sizeMin = XL, sizeMax = XS\<rparr>"
    by (simp add: eval_defs)
  show "handleSetSignal ''XL/XS'' st =
     (None, st\<lparr>size_signal := ''XL/XS'', error_signal := [],
                minComputedSize := ''XL'', maxComputedSize := ''XS''\<rparr>)"
    by (simp add: handleSetSignal_def sz cs every_def validSize_def includes_list_def
        Object_keys_def Size_keys_def)
qed (simp_all add: eval_defs)

section \<open>The check of the tokens\<close>

text \<open>
  What the check accepts: a label has no \<open>/\<close> and is its own single piece, so the first
  disjunct of the check adds nothing to the second. A token passes when all the pieces
  between its separators are labels, however many pieces there are.
\<close>

lemma validSize_pieces:
  "validSize sz = every (split CHR ''/'' sz) (\<lambda>s. includes_list (Object_keys sizingToWeeks) s)"
proof (cases "includes_list (Object_keys sizingToWeeks) sz")
  case True
  then obtain k where "sz = sizeName k" using asSize_key by blast
  then have "split CHR ''/'' sz = [sz]" by (simp add: split_no_sep slash_not_in_name)
  with True show ?thesis by (simp add: validSize_def every_def)
next
  case False
  then show ?thesis by (simp add: validSize_def)
qed

lemma name_is_key: "includes_list (Object_keys r) (sizeName k)"
  by (cases k) (simp_all add: includes_list_def Object_keys_def Size_keys_def)

lemma validSize_label: "validSize (sizeName l)"
  by (simp add: validSize_def name_is_key)

lemma validSize_pair: "validSize (sizeName a @ ''/'' @ sizeName b)"
  by (simp add: validSize_pieces every_def split_append_sep split_no_sep slash_not_in_name
      name_is_key)

text \<open>
  One token that fails the check is enough for the whole input to be refused: the error
  is set, \<open>computeSizing\<close> is not called and the two computed sizes stay as they were.
\<close>

lemma handleSetSignal_rejects:
  "\<not> every (handleSetSignal_sizes v) validSize \<Longrightarrow>
     handleSetSignal v st =
       (None, st\<lparr>size_signal := v, error_signal := ''Invalid formatting''\<rparr>)"
  by (simp add: handleSetSignal_def)

text \<open>
  Claim C1. The claim is that a token passes the check exactly when it is a label or
  two labels around one \<open>/\<close>. The token \<open>XS/S/M\<close> has two separators and passes
  the check all the same: the check asks that every piece between the separators be a
  label and never counts the pieces. The input is accepted, the error is cleared, and
  the results come from the first two pieces only.
\<close>

theorem three_labels_accepted:
  "handleSetSignal_sizes ''XS/S/M'' = [''XS/S/M''] \<and>
   split CHR ''/'' ''XS/S/M'' = [''XS'', ''S'', ''M''] \<and>
   validSize ''XS/S/M'' \<and>
   handleSetSignal ''XS/S/M'' st =
     (None, st\<lparr>size_signal := ''XS/S/M'', error_signal := [],
                minComputedSize := ''XS'', maxComputedSize := ''S''\<rparr>)"
  by (simp add: eval_defs handler_defs)

section \<open>The tokenizer\<close>

text \<open>
  Claim C2, as stated: every run of separators, of any length and mixture, becomes one
  separator, so that no empty token comes from repeated separators. It fails on the
  input \<open>XS , S\<close>, whose run of three separators (space, comma, space) becomes two
  spaces: the second replacement scans once and replaces pairs of spaces that do not
  overlap. The token list has an empty token and the input is rejected.
\<close>

theorem long_run_leaves_empty_token:
  "run3 isSeparator ''XS , S'' \<and>
   handleSetSignal_spaced ''XS , S'' = ''XS  S'' \<and>
   handleSetSignal_sizes ''XS , S'' = [''XS'', [], ''S''] \<and>
   [] \<in> set (handleSetSignal_sizes ''XS , S'') \<and>
   handleSetSignal ''XS , S'' app_init =
     (None, app_init\<lparr>size_signal := ''XS , S'', error_signal := ''Invalid formatting''\<rparr>)"
  by (simp add: isSeparator_def handler_defs includes_list_def Size_keys_def)

text \<open>
  Claim C2, amended. A run of one or of two separators (commas and spaces in any
  mixture) between two places that are not separators becomes a single space, the text
  around it being treated on its own. So when no three separators stand in a row in the
  input, no two separators stand in a row after the replacements, and the candidate
  token list has no empty token, unless the trimmed text is empty and the list is the
  single empty token.
\<close>

theorem short_runs_collapse:
  "((xs = [] \<or> \<not> isSeparator (last xs)) \<and> (ys = [] \<or> \<not> isSeparator (hd ys)) \<and>
    isSeparator a \<and> isSeparator b \<longrightarrow>
      handleSetSignal_spaced (xs @ [a] @ ys) =
        handleSetSignal_spaced xs @ '' '' @ handleSetSignal_spaced ys \<and>
      handleSetSignal_spaced (xs @ [a, b] @ ys) =
        handleSetSignal_spaced xs @ '' '' @ handleSetSignal_spaced ys) \<and>
   (\<not> run3 isSeparator v \<longrightarrow>
      \<not> run2 isSeparator (handleSetSignal_spaced v) \<and>
      (handleSetSignal_sizes v = [[]] \<or> [] \<notin> set (handleSetSignal_sizes v)))"
proof (intro conjI impI)
  assume h: "(xs = [] \<or> \<not> isSeparator (last xs)) \<and> (ys = [] \<or> \<not> isSeparator (hd ys)) \<and>
    isSeparator a \<and> isSeparator b"
  let ?f = "\<lambda>c. if c = CHR '','' then CHR '' '' else c"
  have f: "?f a = CHR '' ''" "?f b = CHR '' ''" using h by (auto simp: isSeparator_def)
  have x: "map ?f xs = [] \<or> last (map ?f xs) \<noteq> CHR '' ''"
    using h by (cases "xs = []") (auto simp: last_map isSeparator_def)
  have y: "\<not> (CHR '' '' = CHR '' '' \<and> map ?f ys \<noteq> [] \<and> hd (map ?f ys) = CHR '' '')"
    using h by (cases "ys = []") (auto simp: hd_map isSeparator_def)
  show "handleSetSignal_spaced (xs @ [a] @ ys) =
        handleSetSignal_spaced xs @ '' '' @ handleSetSignal_spaced ys"
    using collapse_append [OF x, of "CHR '' '' # map ?f ys"] collapse_other [OF y] f
    by (simp add: handleSetSignal_spaced_def replaceAll_char del: replaceAll.simps)
  show "handleSetSignal_spaced (xs @ [a, b] @ ys) =
        handleSetSignal_spaced xs @ '' '' @ handleSetSignal_spaced ys"
    using collapse_append [OF x, of "CHR '' '' # CHR '' '' # map ?f ys"] collapse_pair [of "map ?f ys"] f
    by (simp add: handleSetSignal_spaced_def replaceAll_char del: replaceAll.simps)
next
  assume h: "\<not> run3 isSeparator v"
  have n: "\<not> run2 (\<lambda>c. c = CHR '' '') (handleSetSignal_spaced v)" using h by (rule spaced_no_run2)
  have "run2 isSeparator (handleSetSignal_spaced v) = run2 (\<lambda>c. c = CHR '' '') (handleSetSignal_spaced v)"
    using spaced_no_comma [of v] by (intro run2_cong) (auto simp: isSeparator_def)
  with n show "\<not> run2 isSeparator (handleSetSignal_spaced v)" by simp
  show "handleSetSignal_sizes v = [[]] \<or> [] \<notin> set (handleSetSignal_sizes v)"
  proof (cases "trim (handleSetSignal_spaced v) = []")
    case True
    then show ?thesis by (simp add: handleSetSignal_sizes_def)
  next
    case False
    from trim_ends [OF False] white_space
    have "hd (trim (handleSetSignal_spaced v)) \<noteq> CHR '' ''"
      and "last (trim (handleSetSignal_spaced v)) \<noteq> CHR '' ''" by auto
    moreover have "\<not> run2 (\<lambda>c. c = CHR '' '') (trim (handleSetSignal_spaced v))"
      using n by (rule trim_no_run2)
    ultimately have "[] \<notin> set (split CHR '' '' (trim (handleSetSignal_spaced v)))"
      using split_Nil_mem [of "CHR '' ''" "trim (handleSetSignal_spaced v)"] False by blast
    then show ?thesis by (simp add: handleSetSignal_sizes_def)
  qed
qed

theorem short_runs_collapse_witness:
  "handleSetSignal_spaced (''XS'' @ '','' @ ''S/M'') = ''XS S/M'' \<and>
   handleSetSignal_spaced (''XS'' @ '', '' @ ''S/M'') = ''XS S/M'' \<and>
   \<not> run3 isSeparator ''XS, S/M  L,M '' \<and>
   \<not> run2 isSeparator (handleSetSignal_spaced ''XS, S/M  L,M '') \<and>
   [] \<notin> set (handleSetSignal_sizes ''XS, S/M  L,M '') \<and>
   handleSetSignal_sizes ''XS, S/M  L,M '' = [''XS'', ''S/M'', ''L'', ''M'']"
  using short_runs_collapse [where xs = "''XS''" and ys = "''S/M''" and a = "CHR '',''"
      and b = "CHR '' ''" and v = "''XS, S/M  L,M ''"]
  by (simp add: isSeparator_def handleSetSignal_sizes_def handleSetSignal_spaced_def
      trim_def isWhiteSpace_def)

text \<open>
  Claim C5. An input text that is empty, or made of commas and white space only, gives
  the single empty token, which fails the check: the handler sets the error to
  \<open>Invalid formatting\<close> and leaves the two computed sizes as they were.
\<close>

theorem separators_only_rejected:
  "\<forall>c\<in>set v. c = CHR '','' \<or> isWhiteSpace c \<Longrightarrow>
     handleSetSignal_sizes v = [[]] \<and>
     handleSetSignal v st = (None, st\<lparr>size_signal := v, error_signal := ''Invalid formatting''\<rparr>)"
proof -
  assume a: "\<forall>c\<in>set v. c = CHR '','' \<or> isWhiteSpace c"
  have 1: "\<forall>c\<in>set (replaceAll '','' '' '' v). isWhiteSpace c"
    using a white_space by (auto simp: replaceAll_char)
  have "set (replaceAll ''  '' '' '' (replaceAll '','' '' '' v)) \<subseteq> set (replaceAll '','' '' '' v) \<union> {CHR '' ''}"
    using set_replaceAll [of "CHR '' ''" "'' ''" "'' ''"] by simp
  with 1 white_space have "\<forall>c\<in>set (replaceAll ''  '' '' '' (replaceAll '','' '' '' v)). isWhiteSpace c"
    by auto
  then have sz: "handleSetSignal_sizes v = [[]]"
    by (simp add: handleSetSignal_sizes_def handleSetSignal_spaced_def trim_all_white)
  then show ?thesis
    by (simp add: handleSetSignal_def every_def not_valid_empty)
qed

theorem separators_only_rejected_witness:
  "list_all (\<lambda>c. c = CHR '','' \<or> isWhiteSpace c) '' ,  , '' \<and>
   handleSetSignal_sizes '' ,  , '' = [[]] \<and>
   handleSetSignal '' ,  , '' app_init =
     (None, app_init\<lparr>size_signal := '' ,  , '', error_signal := ''Invalid formatting''\<rparr>) \<and>
   handleSetSignal [] app_init =
     (None, app_init\<lparr>size_signal := [], error_signal := ''Invalid formatting''\<rparr>)"
  using separators_only_rejected [of "'' ,  , ''" app_init]
    separators_only_rejected [of "[]" app_init]
  by (simp add: isWhiteSpace_def)

end
